theory Spec2Isabelle
  imports Main "HOL-Library.Char_ord" "HOL-Library.List_Lexorder"
begin

section \<open>Strings of the Go runtime\<close>

text \<open>
  A Go string is a sequence of bytes and \<open>len\<close> counts bytes, so a Go string is a
  \<^typ>\<open>string\<close> and \<open>len s\<close> is \<^term>\<open>int (length s)\<close>. Go's \<open>int\<close> is modelled by
  \<^typ>\<open>int\<close> without wrap-around: \<open>formatBox\<close> builds strings of as many bytes as
  the widths and paddings it computes, so these stay far below \<open>2 ^ 63\<close> wherever it
  returns. A panic of the runtime is a value of the type \<open>error\<close>.
\<close>

datatype error = NegativeRepeat | IndexOutOfRange

text \<open>\<open>strings.Repeat\<close>: panics on a negative count.\<close>

definition Repeat :: "string \<Rightarrow> int \<Rightarrow> error + string" where
  "Repeat s count =
     (if count < 0 then Inl NegativeRepeat else Inr (concat (replicate (nat count) s)))"

text \<open>\<open>strings.Split(s, "\n")\<close>: the fields between line feeds; one field for the empty string.\<close>

fun Split_nl :: "string \<Rightarrow> string list" where
  "Split_nl [] = [[]]"
| "Split_nl (c # cs) =
     (if c = CHR 0x0A then [] # Split_nl cs
      else (case Split_nl cs of [] \<Rightarrow> [[c]] | l # ls \<Rightarrow> (c # l) # ls))"

text \<open>
  \<open>utf8.DecodeRuneInString\<close>, the width it returns: the table \<open>first\<close> and the accept
  ranges of package \<open>unicode/utf8\<close>. A lead byte that starts no sequence has no entry.
\<close>

definition first_info :: "nat \<Rightarrow> (nat \<times> nat \<times> nat) option" where
  "first_info b =
     (if b < 0xC2 then None
      else if b < 0xE0 then Some (2, 0x80, 0xBF)
      else if b = 0xE0 then Some (3, 0xA0, 0xBF)
      else if b < 0xED then Some (3, 0x80, 0xBF)
      else if b = 0xED then Some (3, 0x80, 0x9F)
      else if b < 0xF0 then Some (3, 0x80, 0xBF)
      else if b = 0xF0 then Some (4, 0x90, 0xBF)
      else if b < 0xF4 then Some (4, 0x80, 0xBF)
      else if b = 0xF4 then Some (4, 0x80, 0x8F)
      else None)"

definition DecodeRune_size :: "string \<Rightarrow> nat" where
  "DecodeRune_size s =
     (let n = length s in
      if n < 1 then 0
      else case first_info (of_char (s ! 0)) of
        None \<Rightarrow> 1
      | Some (sz, lo, hi) \<Rightarrow>
          if n < sz then 1
          else let s1 = (of_char (s ! 1) :: nat) in
            if s1 < lo \<or> hi < s1 then 1
            else if sz \<le> 2 then 2
            else let s2 = (of_char (s ! 2) :: nat) in
              if s2 < 0x80 \<or> 0xBF < s2 then 1
              else if sz \<le> 3 then 3
              else let s3 = (of_char (s ! 3) :: nat) in
                if s3 < 0x80 \<or> 0xBF < s3 then 1 else 4)"

text \<open>\<open>utf8.RuneCountInString\<close>: a byte that decodes to no rune counts as one rune.\<close>

function RuneCountInString :: "string \<Rightarrow> nat" where
  "RuneCountInString s =
     (if s = [] then 0 else 1 + RuneCountInString (drop (DecodeRune_size s) s))"
  by pat_completeness auto
termination
proof (relation "measure length")
  show "wf (measure length)" by simp
next
  fix s :: string
  assume "s \<noteq> []"
  then have "0 < DecodeRune_size s"
    by (auto simp: DecodeRune_size_def Let_def split: option.splits)
  with \<open>s \<noteq> []\<close> show "(drop (DecodeRune_size s) s, s) \<in> measure length"
    by simp
qed

text \<open>
  \<open>strings.SplitN(s, "", n)\<close> is \<open>explode(s, n)\<close> of package \<open>strings\<close>: the first
  \<open>n - 1\<close> runes one by one, then the rest; at most as many pieces as the string has runes.
\<close>

fun explode_loop :: "string \<Rightarrow> nat \<Rightarrow> string list" where
  "explode_loop s 0 = []"
| "explode_loop s (Suc 0) = [s]"
| "explode_loop s (Suc n) =
     (let size = DecodeRune_size s in take size s # explode_loop (drop size s) n)"

definition explode :: "string \<Rightarrow> int \<Rightarrow> string list" where
  "explode s n =
     (let l = int (RuneCountInString s);
          n = (if n < 0 \<or> n > l then l else n)
      in explode_loop s (nat n))"

section \<open>The box logger\<close>

text \<open>The box drawing characters, as the bytes of their UTF-8 encodings.\<close>

definition topLeft :: string where "topLeft = [CHR 0xE2, CHR 0x95, CHR 0xAD]"
definition topRight :: string where "topRight = [CHR 0xE2, CHR 0x95, CHR 0xAE]"
definition bottomLeft :: string where "bottomLeft = [CHR 0xE2, CHR 0x95, CHR 0xB0]"
definition bottomRight :: string where "bottomRight = [CHR 0xE2, CHR 0x95, CHR 0xAF]"
definition horizontal :: string where "horizontal = [CHR 0xE2, CHR 0x94, CHR 0x80]"
definition vertical :: string where "vertical = [CHR 0xE2, CHR 0x94, CHR 0x82]"

record Logger =
  showTimestamp :: bool
  padding :: int

definition NewLogger :: "bool \<Rightarrow> int \<Rightarrow> Logger" where
  "NewLogger showTimestamp' padding' =
     (let padding' = (if padding' < 1 then 1 else padding')
      in \<lparr>showTimestamp = showTimestamp', padding = padding'\<rparr>)"

definition DefaultLogger :: Logger where
  "DefaultLogger = NewLogger True 1"

text \<open>
  \<open>time.Now().Format("15:04:05")\<close>: the wall clock is an input, the seconds elapsed
  since midnight; the layout prints hour, minute and second with two digits each.
\<close>

definition two_digits :: "nat \<Rightarrow> string" where
  "two_digits n = [char_of (48 + n div 10 mod 10), char_of (48 + n mod 10)]"

definition Format_clock :: "nat \<Rightarrow> string" where
  "Format_clock now =
     two_digits (now div 3600 mod 24) @ '':'' @ two_digits (now div 60 mod 60)
       @ '':'' @ two_digits (now mod 60)"

text \<open>The first loop of \<open>formatBox\<close>: the length of the longest line.\<close>

fun longest :: "string list \<Rightarrow> int \<Rightarrow> int" where
  "longest [] maxLength = maxLength"
| "longest (line # lines) maxLength =
     longest lines (if int (length line) > maxLength then int (length line) else maxLength)"

text \<open>One line of the box between the vertical bars: the timestamp or a message line.\<close>

definition paddedLine :: "Logger \<Rightarrow> int \<Rightarrow> string \<Rightarrow> error + string" where
  "paddedLine l maxLength line =
     (case Repeat '' '' (padding l) of
        Inl e \<Rightarrow> Inl e
      | Inr left \<Rightarrow>
          (case Repeat '' '' (maxLength - int (length line)) of
             Inl e \<Rightarrow> Inl e
           | Inr right \<Rightarrow> Inr (vertical @ left @ line @ right @ vertical)))"

text \<open>The loop over the message lines, appending to the builder \<open>result\<close>.\<close>

fun message_lines ::
  "Logger \<Rightarrow> int \<Rightarrow> (string \<Rightarrow> string) \<Rightarrow> string list \<Rightarrow> string \<Rightarrow> error + string" where
  "message_lines l maxLength colorFunc [] result = Inr result"
| "message_lines l maxLength colorFunc (line # lines) result =
     (case paddedLine l maxLength line of
        Inl e \<Rightarrow> Inl e
      | Inr p \<Rightarrow> message_lines l maxLength colorFunc lines (result @ colorFunc p @ [CHR 0x0A]))"

text \<open>
  \<open>formatBox\<close>. The style \<open>colorFunc\<close>, the style of the tag \<open>tagColor\<close> and the clock
  \<open>now\<close> are parameters; a panic is the result \<open>Inl\<close>.
\<close>

definition formatBox ::
  "Logger \<Rightarrow> string \<Rightarrow> string \<Rightarrow> (string \<Rightarrow> string) \<Rightarrow> (string \<Rightarrow> string) \<Rightarrow> nat
     \<Rightarrow> error + string" where
  "formatBox l message tag colorFunc tagColor now =
     (let lines = Split_nl message;
          maxLength = longest lines 0;
          maxLength = (if tag \<noteq> [] then
                         (if int (length tag) + 4 > maxLength then int (length tag) + 4
                          else maxLength)
                       else maxLength);
          maxLength = maxLength + padding l * 2
      in case Repeat horizontal maxLength of
        Inl e \<Rightarrow> Inl e
      | Inr rule \<Rightarrow>
          (let topBorder = topLeft @ rule @ topRight in
           case (if tag \<noteq> [] then
                   (let tagDisplay = '' '' @ tagColor tag @ '' '';
                        topBorderParts = explode topBorder 2
                    in if length topBorderParts < 2 then Inl IndexOutOfRange
                       else Inr (colorFunc (topBorderParts ! 0 @ tagDisplay @ topBorderParts ! 1)
                                 @ [CHR 0x0A]))
                 else Inr (colorFunc topBorder @ [CHR 0x0A])) of
             Inl e \<Rightarrow> Inl e
           | Inr result \<Rightarrow>
               (case (if showTimestamp l then
                        (let timestamp = Format_clock now in
                         case paddedLine l maxLength timestamp of
                           Inl e \<Rightarrow> Inl e
                         | Inr p \<Rightarrow> Inr (result @ colorFunc p @ [CHR 0x0A]))
                      else Inr result) of
                  Inl e \<Rightarrow> Inl e
                | Inr result \<Rightarrow>
                    (case message_lines l maxLength colorFunc lines result of
                       Inl e \<Rightarrow> Inl e
                     | Inr result \<Rightarrow>
                         Inr (result @ colorFunc (bottomLeft @ rule @ bottomRight))))))"

text \<open>
  The width of the box: the value of \<open>maxLength\<close> in \<open>formatBox\<close> when the borders are
  built, the longest line or the tag with its four columns, and the padding twice.
\<close>

definition boxWidth :: "Logger \<Rightarrow> string \<Rightarrow> string \<Rightarrow> int" where
  "boxWidth l message tag =
     (let lines = Split_nl message;
          maxLength = longest lines 0;
          maxLength = (if tag \<noteq> [] then
                         (if int (length tag) + 4 > maxLength then int (length tag) + 4
                          else maxLength)
                       else maxLength)
      in maxLength + padding l * 2)"

text \<open>
  The styles of the log levels are values of the colour library: functions on strings,
  given here as a parameter.
\<close>

record styles =
  warningColor :: "string \<Rightarrow> string"
  messageColor :: "string \<Rightarrow> string"
  infoColor :: "string \<Rightarrow> string"
  errorColor :: "string \<Rightarrow> string"
  successColor :: "string \<Rightarrow> string"
  ongoingColor :: "string \<Rightarrow> string"
  tagColor :: "string \<Rightarrow> string"

text \<open>
  \<open>fmt.Println\<close> of a box: the result is the text written to the standard output, the
  box and a line feed; a panic of \<open>formatBox\<close> writes nothing.
\<close>

definition Println :: "error + string \<Rightarrow> error + string" where
  "Println box = (case box of Inl e \<Rightarrow> Inl e | Inr s \<Rightarrow> Inr (s @ [CHR 0x0A]))"

text \<open>The methods of a Logger; the variadic \<open>tag\<close> is a list.\<close>

definition Logger_Warning :: "styles \<Rightarrow> nat \<Rightarrow> Logger \<Rightarrow> string \<Rightarrow> string list \<Rightarrow> error + string" where
  "Logger_Warning st now l message tag =
     (let tagStr = (if length tag > 0 then tag ! 0 else [])
      in Println (formatBox l message tagStr (warningColor st) (tagColor st) now))"

definition Logger_Message :: "styles \<Rightarrow> nat \<Rightarrow> Logger \<Rightarrow> string \<Rightarrow> string list \<Rightarrow> error + string" where
  "Logger_Message st now l message tag =
     (let tagStr = (if length tag > 0 then tag ! 0 else [])
      in Println (formatBox l message tagStr (messageColor st) (tagColor st) now))"

definition Logger_Info :: "styles \<Rightarrow> nat \<Rightarrow> Logger \<Rightarrow> string \<Rightarrow> string list \<Rightarrow> error + string" where
  "Logger_Info st now l message tag =
     (let tagStr = (if length tag > 0 then tag ! 0 else [])
      in Println (formatBox l message tagStr (infoColor st) (tagColor st) now))"

definition Logger_Error :: "styles \<Rightarrow> nat \<Rightarrow> Logger \<Rightarrow> string \<Rightarrow> string list \<Rightarrow> error + string" where
  "Logger_Error st now l message tag =
     (let tagStr = (if length tag > 0 then tag ! 0 else [])
      in Println (formatBox l message tagStr (errorColor st) (tagColor st) now))"

definition Logger_Success :: "styles \<Rightarrow> nat \<Rightarrow> Logger \<Rightarrow> string \<Rightarrow> string list \<Rightarrow> error + string" where
  "Logger_Success st now l message tag =
     (let tagStr = (if length tag > 0 then tag ! 0 else [])
      in Println (formatBox l message tagStr (successColor st) (tagColor st) now))"

definition Logger_Ongoing :: "styles \<Rightarrow> nat \<Rightarrow> Logger \<Rightarrow> string \<Rightarrow> string list \<Rightarrow> error + string" where
  "Logger_Ongoing st now l message tag =
     (let tagStr = (if length tag > 0 then tag ! 0 else [])
      in Println (formatBox l message tagStr (ongoingColor st) (tagColor st) now))"

text \<open>The functions of the package, on the default logger.\<close>

definition Warning :: "styles \<Rightarrow> nat \<Rightarrow> string \<Rightarrow> string list \<Rightarrow> error + string" where
  "Warning st now message tag = Logger_Warning st now DefaultLogger message tag"

definition Message :: "styles \<Rightarrow> nat \<Rightarrow> string \<Rightarrow> string list \<Rightarrow> error + string" where
  "Message st now message tag = Logger_Message st now DefaultLogger message tag"

definition Info :: "styles \<Rightarrow> nat \<Rightarrow> string \<Rightarrow> string list \<Rightarrow> error + string" where
  "Info st now message tag = Logger_Info st now DefaultLogger message tag"

definition Error :: "styles \<Rightarrow> nat \<Rightarrow> string \<Rightarrow> string list \<Rightarrow> error + string" where
  "Error st now message tag = Logger_Error st now DefaultLogger message tag"

definition Success :: "styles \<Rightarrow> nat \<Rightarrow> string \<Rightarrow> string list \<Rightarrow> error + string" where
  "Success st now message tag = Logger_Success st now DefaultLogger message tag"

definition Ongoing :: "styles \<Rightarrow> nat \<Rightarrow> string \<Rightarrow> string list \<Rightarrow> error + string" where
  "Ongoing st now message tag = Logger_Ongoing st now DefaultLogger message tag"

section \<open>Structured values\<close>

text \<open>
  A value of type \<open>interface{}\<close>, by the type switches of the renderers: a string, an
  \<open>int\<close> or \<open>int64\<close>, a \<open>float64\<close> or \<open>float32\<close>, a \<open>bool\<close>, a
  \<open>map[string]interface{}\<close>, a \<open>[]interface{}\<close>, a slice of another type (here
  \<open>[]int\<close>), or any other value (\<open>nil\<close>, a struct). The formatting of floating point
  numbers is not modelled: a float is given by the text that the verb \<open>%v\<close> of package
  \<open>fmt\<close> prints for it, and so is a value of the last kind.

  A Go map is the list of its entries, with distinct keys, in the order in which
  \<open>range\<close> yields them on this run. The language leaves that order unspecified and the
  runtime varies it from one loop to the next, so two lists with the same entries are the
  same map.
\<close>

datatype val =
    VString string
  | VInt int
  | VFloat string
  | VBool bool
  | VMap "(string \<times> val) list"
  | VSlice "val list"
  | VIntSlice "int list"
  | VOther string

text \<open>The verb \<open>%d\<close>: decimal digits, a minus sign for a negative number.\<close>

function dec_nat :: "nat \<Rightarrow> string" where
  "dec_nat n = (if n < 10 then [char_of (48 + n)] else dec_nat (n div 10) @ [char_of (48 + n mod 10)])"
  by pat_completeness auto
termination
  by (relation "measure id") auto

definition dec_int :: "int \<Rightarrow> string" where
  "dec_int n = (if n < 0 then ''-'' @ dec_nat (nat (- n)) else dec_nat (nat n))"

text \<open>\<open>strings.Join\<close>.\<close>

fun Join :: "string list \<Rightarrow> string \<Rightarrow> string" where
  "Join [] sep = []"
| "Join [x] sep = x"
| "Join (x # xs) sep = x @ sep @ Join xs sep"

text \<open>
  The verb \<open>%v\<close>: a string as it is, a number in decimal, a slice as \<open>[a b]\<close>, a map
  as \<open>map[k:v k:v]\<close> with the keys sorted.
\<close>

fun fmt_v :: "val \<Rightarrow> string" where
  "fmt_v (VString s) = s"
| "fmt_v (VInt n) = dec_int n"
| "fmt_v (VBool b) = (if b then ''true'' else ''false'')"
| "fmt_v (VMap m) =
     ''map['' @ Join (map (\<lambda>(k, v). k @ '':'' @ fmt_v v) (sort_key fst m)) '' '' @ '']''"
| "fmt_v (VSlice xs) = ''['' @ Join (map fmt_v xs) '' '' @ '']''"
| "fmt_v (VFloat t) = t"
| "fmt_v (VIntSlice ns) = ''['' @ Join (map dec_int ns) '' '' @ '']''"
| "fmt_v (VOther t) = t"

text \<open>
  \<open>MapAsPrettyString\<close> and \<open>ValueAsString\<close>. The loop over the map carries \<open>result\<close>
  and \<open>first\<close>; the variadic \<open>beforeMessage\<close> is a list.
\<close>

fun MapAsPrettyString_loop :: "(string \<times> val) list \<Rightarrow> string \<Rightarrow> bool \<Rightarrow> string"
  and ValueAsString :: "val \<Rightarrow> string" where
  "MapAsPrettyString_loop [] result first = result"
| "MapAsPrettyString_loop ((k, v) # m) result first =
     MapAsPrettyString_loop m
       ((if \<not> first then result @ '', '' else result) @ k @ '': '' @ ValueAsString v) False"
| "ValueAsString (VString val) = [CHR 0x22] @ val @ [CHR 0x22]"
| "ValueAsString (VInt val) = fmt_v (VInt val)"
| "ValueAsString (VFloat val) = fmt_v (VFloat val)"
| "ValueAsString (VBool val) = fmt_v (VBool val)"
| "ValueAsString (VMap val) = MapAsPrettyString_loop val ''{'' True @ ''}''"
| "ValueAsString (VSlice val) = fmt_v (VSlice val)"
| "ValueAsString (VIntSlice val) = fmt_v (VIntSlice val)"
| "ValueAsString (VOther val) = fmt_v (VOther val)"

definition MapAsPrettyString :: "(string \<times> val) list \<Rightarrow> string list \<Rightarrow> string" where
  "MapAsPrettyString m beforeMessage =
     (let result = MapAsPrettyString_loop m ''{'' True @ ''}''
      in if length beforeMessage > 0 then beforeMessage ! 0 @ '' '' @ result else result)"

text \<open>\<open>ListAsPrettyString\<close>.\<close>

fun ListAsPrettyString_loop :: "string list \<Rightarrow> string \<Rightarrow> bool \<Rightarrow> string" where
  "ListAsPrettyString_loop [] result first = result"
| "ListAsPrettyString_loop (v # list) result first =
     ListAsPrettyString_loop list
       ((if \<not> first then result @ '', '' else result) @ [CHR 0x22] @ v @ [CHR 0x22]) False"

definition ListAsPrettyString :: "string list \<Rightarrow> string list \<Rightarrow> string" where
  "ListAsPrettyString list beforeMessage =
     (let result = ListAsPrettyString_loop list ''['' True @ '']''
      in if length beforeMessage > 0 then beforeMessage ! 0 @ '' '' @ result else result)"

text \<open>\<open>ListAsPrettyStringWithIndex\<close>; the loop also carries the index \<open>i\<close>.\<close>

fun ListAsPrettyStringWithIndex_loop :: "string list \<Rightarrow> nat \<Rightarrow> string \<Rightarrow> bool \<Rightarrow> string" where
  "ListAsPrettyStringWithIndex_loop [] i result first = result"
| "ListAsPrettyStringWithIndex_loop (v # list) i result first =
     ListAsPrettyStringWithIndex_loop list (i + 1)
       ((if \<not> first then result @ '', '' else result)
          @ dec_nat (i + 1) @ '': '' @ [CHR 0x22] @ v @ [CHR 0x22]) False"

definition ListAsPrettyStringWithIndex :: "string list \<Rightarrow> string list \<Rightarrow> string" where
  "ListAsPrettyStringWithIndex list beforeMessage =
     (let result = ListAsPrettyStringWithIndex_loop list 0 ''['' True @ '']''
      in if length beforeMessage > 0 then beforeMessage ! 0 @ '' '' @ result else result)"

text \<open>
  \<open>PrintMapWithIndent\<close>; the result is the text written to the standard output.
  \<open>PrintMapWithIndent_items\<close> is the loop over the elements of a slice, from index \<open>i\<close>.
\<close>

function PrintMapWithIndent :: "(string \<times> val) list \<Rightarrow> string \<Rightarrow> string"
  and PrintMapWithIndent_items :: "val list \<Rightarrow> string \<Rightarrow> nat \<Rightarrow> string" where
  "PrintMapWithIndent m indent =
     (let keys = sort (map fst m) in
      concat (map (\<lambda>k.
        case map_of m k of
          None \<Rightarrow> indent @ k @ '': <nil>'' @ [CHR 0x0A]
        | Some v \<Rightarrow>
            (case v of
               VMap value \<Rightarrow>
                 indent @ k @ '': {'' @ [CHR 0x0A]
                   @ PrintMapWithIndent value (indent @ ''  '')
                   @ indent @ ''}'' @ [CHR 0x0A]
             | VSlice value \<Rightarrow>
                 indent @ k @ '': ['' @ [CHR 0x0A]
                   @ PrintMapWithIndent_items value indent 0
                   @ indent @ '']'' @ [CHR 0x0A]
             | _ \<Rightarrow> indent @ k @ '': '' @ fmt_v v @ [CHR 0x0A])) keys))"
| "PrintMapWithIndent_items [] indent i = []"
| "PrintMapWithIndent_items (item # items) indent i =
     (case item of
        VMap nestedMap \<Rightarrow>
          indent @ ''  ['' @ dec_nat i @ '']: {'' @ [CHR 0x0A]
            @ PrintMapWithIndent nestedMap (indent @ ''    '')
            @ indent @ ''  }'' @ [CHR 0x0A]
      | _ \<Rightarrow> indent @ ''  ['' @ dec_nat i @ '']: '' @ fmt_v item @ [CHR 0x0A])
     @ PrintMapWithIndent_items items indent (i + 1)"
  by pat_completeness auto
termination
proof -
  have lookup: "size v < size (VMap m)" if "map_of m k = Some v"
    for m :: "(string \<times> val) list" and k v
    using that by (induction m) (auto split: if_splits)
  show ?thesis
    by (relation "measure (\<lambda>x. case x of Inl (m, indent) \<Rightarrow> size (VMap m)
                                       | Inr (items, indent, i) \<Rightarrow> size (VSlice items))")
       (auto dest: lookup)
qed

text \<open>
  The same map has many lists of entries, one for each order of iteration. \<open>canon\<close>
  puts the entries of every map of a value in ascending order of the keys: two values
  that differ only in the order of the entries of their maps have the same \<open>canon\<close>.
\<close>

fun canon :: "val \<Rightarrow> val" where
  "canon (VMap m) = VMap (sort_key fst (map (\<lambda>(k, v). (k, canon v)) m))"
| "canon (VSlice xs) = VSlice (map canon xs)"
| "canon (VString s) = VString s"
| "canon (VInt n) = VInt n"
| "canon (VBool b) = VBool b"
| "canon (VFloat t) = VFloat t"
| "canon (VIntSlice ns) = VIntSlice ns"
| "canon (VOther t) = VOther t"

declare RuneCountInString.simps [simp del]
declare dec_nat.simps [simp del]
declare PrintMapWithIndent.simps [simp del]

section \<open>Properties\<close>

subsection \<open>The loops with a separator\<close>

text \<open>
  A loop that writes \<open>", "\<close> before every element but the first joins the elements
  with that separator.
\<close>

lemma Join_Cons: "Join (x # xs) sep = x @ (if xs = [] then [] else sep @ Join xs sep)"
  by (cases xs) simp_all

lemma ListAsPrettyString_loop_Join:
  "ListAsPrettyString_loop xs result first =
     result @ (if xs = [] then [] else (if first then [] else '', '')
       @ Join (map (\<lambda>v. [CHR 0x22] @ v @ [CHR 0x22]) xs) '', '')"
  by (induction xs arbitrary: result first) (simp_all add: Join_Cons)

lemma ListAsPrettyStringWithIndex_loop_Join:
  "ListAsPrettyStringWithIndex_loop xs i result first =
     result @ (if xs = [] then [] else (if first then [] else '', '')
       @ Join (map (\<lambda>(j, v). dec_nat (j + 1) @ '': '' @ [CHR 0x22] @ v @ [CHR 0x22]) (enumerate i xs)) '', '')"
proof -
  have ne: "enumerate j ys = [] \<longleftrightarrow> ys = []" for j :: nat and ys :: "string list"
    by (cases ys) simp_all
  show ?thesis
    by (induction xs arbitrary: i result first) (simp_all add: Join_Cons ne)
qed

lemma MapAsPrettyString_loop_Join:
  "MapAsPrettyString_loop m result first =
     result @ (if m = [] then [] else (if first then [] else '', '')
       @ Join (map (\<lambda>(k, v). k @ '': '' @ ValueAsString v) m) '', '')"
  by (induction m arbitrary: result first) (auto simp add: Join_Cons)

subsection \<open>Runes\<close>

text \<open>
  Counting runes is additive where the second string starts a rune: its first byte is no
  continuation byte. The box drawing characters are one rune each.
\<close>

lemma first_info_Some:
  "first_info b = Some (sz, lo, hi) \<Longrightarrow> (sz = 2 \<or> sz = 3 \<or> sz = 4) \<and> 0x80 \<le> lo \<and> hi \<le> 0xBF"
  by (auto simp: first_info_def split: if_splits)

lemma DecodeRune_size_None:
  "s \<noteq> [] \<Longrightarrow> first_info (of_char (s ! 0)) = None \<Longrightarrow> DecodeRune_size s = 1"
  by (simp add: DecodeRune_size_def)

lemma DecodeRune_size_Some:
  assumes "s \<noteq> []" and fi: "first_info (of_char (s ! 0)) = Some (sz, lo, hi)"
  shows "DecodeRune_size s =
     (if sz \<le> length s \<and> lo \<le> of_char (s ! 1) \<and> of_char (s ! 1) \<le> hi
         \<and> (2 < sz \<longrightarrow> (0x80::nat) \<le> of_char (s ! 2) \<and> of_char (s ! 2) \<le> (0xBF::nat))
         \<and> (3 < sz \<longrightarrow> (0x80::nat) \<le> of_char (s ! 3) \<and> of_char (s ! 3) \<le> (0xBF::nat))
      then sz else 1)"
proof -
  from first_info_Some [OF fi] consider "sz = 2" | "sz = 3" | "sz = 4" by blast
  then show ?thesis
  proof cases
    case 1
    with assms show ?thesis by (simp add: DecodeRune_size_def Let_def not_less)
  next
    case 2
    with assms show ?thesis by (simp add: DecodeRune_size_def Let_def not_less)
  next
    case 3
    with assms show ?thesis by (simp add: DecodeRune_size_def Let_def not_less)
  qed
qed

lemma DecodeRune_size_le: "DecodeRune_size s \<le> length s"
proof (cases "s = []")
  case True
  then show ?thesis by (simp add: DecodeRune_size_def)
next
  case False
  then have "1 \<le> length s" by (cases s) simp_all
  show ?thesis
  proof (cases "first_info (of_char (s ! 0))")
    case None
    with False \<open>1 \<le> length s\<close> show ?thesis by (simp add: DecodeRune_size_None)
  next
    case (Some a)
    then obtain sz lo hi where "first_info (of_char (s ! 0)) = Some (sz, lo, hi)"
      by (cases a) auto
    from DecodeRune_size_Some [OF False this] \<open>1 \<le> length s\<close> show ?thesis
      by (simp split: if_splits)
  qed
qed

lemma DecodeRune_size_append:
  assumes "s \<noteq> []" and t: "t = [] \<or> (of_char (hd t) :: nat) < 0x80 \<or> 0xBF < (of_char (hd t) :: nat)"
  shows "DecodeRune_size (s @ t) = DecodeRune_size s"
proof (cases "first_info (of_char (s ! 0))")
  case None
  with assms show ?thesis by (simp add: DecodeRune_size_None nth_append)
next
  case (Some a)
  then obtain sz lo hi where fi: "first_info (of_char (s ! 0)) = Some (sz, lo, hi)"
    by (cases a) auto
  from assms fi have fi': "first_info (of_char ((s @ t) ! 0)) = Some (sz, lo, hi)"
    by (simp add: nth_append)
  note b = first_info_Some [OF fi]
  have ne: "s @ t \<noteq> []" using assms by simp
  have hd: "(s @ t) ! length s = hd t" if "t \<noteq> []"
    using that by (simp add: nth_append hd_conv_nth)
  show ?thesis
  proof (cases "sz \<le> length s")
    case True
    with b show ?thesis
      unfolding DecodeRune_size_Some [OF ne fi'] DecodeRune_size_Some [OF \<open>s \<noteq> []\<close> fi]
      by (auto simp: nth_append)
  next
    case False
    show ?thesis
    proof (cases "t = []")
      case True
      then show ?thesis by simp
    next
      case nt: False
      with t have bad: "(of_char ((s @ t) ! length s) :: nat) < 0x80 \<or> 0xBF < (of_char ((s @ t) ! length s) :: nat)"
        by (simp add: hd)
      from \<open>s \<noteq> []\<close> have "0 < length s" by simp
      with False b have "length s = 1 \<or> length s = 2 \<or> length s = 3"
        by arith
      with bad b False show ?thesis
        unfolding DecodeRune_size_Some [OF ne fi'] DecodeRune_size_Some [OF \<open>s \<noteq> []\<close> fi]
        by auto
    qed
  qed
qed

lemma RuneCount_append:
  "t = [] \<or> (of_char (hd t) :: nat) < 0x80 \<or> 0xBF < (of_char (hd t) :: nat)
   \<Longrightarrow> RuneCountInString (s @ t) = RuneCountInString s + RuneCountInString t"
proof (induction s rule: RuneCountInString.induct)
  case (1 s)
  show ?case
  proof (cases "s = []")
    case True
    then show ?thesis by (simp add: RuneCountInString.simps [of "[]"])
  next
    case False
    have d: "DecodeRune_size (s @ t) = DecodeRune_size s"
      using False 1(2) by (rule DecodeRune_size_append)
    have "RuneCountInString (s @ t) = 1 + RuneCountInString (drop (DecodeRune_size s) s @ t)"
      using False DecodeRune_size_le [of s] by (subst RuneCountInString.simps) (simp add: d)
    also have "\<dots> = 1 + (RuneCountInString (drop (DecodeRune_size s) s) + RuneCountInString t)"
      using 1(1) [OF False 1(2)] by simp
    also have "\<dots> = RuneCountInString s + RuneCountInString t"
      using False by (subst (2) RuneCountInString.simps) simp
    finally show ?thesis .
  qed
qed


lemma RuneCount_Nil: "RuneCountInString [] = 0"
  by (simp add: RuneCountInString.simps)

lemma RuneCount_box_chars:
  "RuneCountInString topLeft = 1" "RuneCountInString topRight = 1"
  "RuneCountInString bottomLeft = 1" "RuneCountInString bottomRight = 1"
  "RuneCountInString horizontal = 1" "RuneCountInString vertical = 1"
  by code_simp+

lemma RuneCount_space: "RuneCountInString '' '' = 1"
  by code_simp

lemma RuneCount_spaces: "RuneCountInString (replicate n CHR '' '') = n"
proof (induction n)
  case 0
  show ?case by (simp add: RuneCount_Nil)
next
  case (Suc n)
  have "RuneCountInString ('' '' @ replicate n CHR '' '') = RuneCountInString '' '' + RuneCountInString (replicate n CHR '' '')"
    by (rule RuneCount_append) (cases n; simp)
  with Suc show ?case by (simp add: RuneCount_space)
qed

lemma hd_rule: "hd (concat (replicate n horizontal) @ topRight) = CHR 0xE2"
  "hd (concat (replicate n horizontal) @ bottomRight) = CHR 0xE2"
  by (cases n; simp add: horizontal_def topRight_def bottomRight_def)+

lemma RuneCount_rule: "RuneCountInString (concat (replicate n horizontal)) = n"
proof (induction n)
  case 0
  show ?case by (simp add: RuneCount_Nil)
next
  case (Suc n)
  have "RuneCountInString (horizontal @ concat (replicate n horizontal))
      = RuneCountInString horizontal + RuneCountInString (concat (replicate n horizontal))"
    by (rule RuneCount_append) (cases n; simp add: horizontal_def)
  with Suc show ?case by (simp add: RuneCount_box_chars)
qed

lemma concat_replicate_space: "concat (replicate n '' '') = replicate n CHR '' ''"
  by (induction n) simp_all

lemma Repeat_space: "0 \<le> n \<Longrightarrow> Repeat '' '' n = Inr (replicate (nat n) CHR '' '')"
  by (simp add: Repeat_def concat_replicate_space)

lemma explode_topBorder:
  "explode (topLeft @ concat (replicate n horizontal) @ topRight) 2
     = [topLeft, concat (replicate n horizontal) @ topRight]"
proof -
  let ?rest = "concat (replicate n horizontal) @ topRight"
  have "RuneCountInString (topLeft @ ?rest) = RuneCountInString topLeft + RuneCountInString ?rest"
    by (rule RuneCount_append) (simp add: hd_rule)
  also have "RuneCountInString ?rest = RuneCountInString (concat (replicate n horizontal)) + RuneCountInString topRight"
    by (rule RuneCount_append) (simp add: topRight_def)
  finally have l: "RuneCountInString (topLeft @ ?rest) = n + 2"
    by (simp add: RuneCount_box_chars RuneCount_rule)
  have d: "DecodeRune_size (topLeft @ ?rest) = 3"
  proof -
    have "DecodeRune_size (topLeft @ ?rest) = DecodeRune_size topLeft"
      by (rule DecodeRune_size_append) (simp_all add: hd_rule topLeft_def)
    also have "\<dots> = 3" by code_simp
    finally show ?thesis .
  qed
  have "explode (topLeft @ ?rest) 2 = explode_loop (topLeft @ ?rest) (Suc (Suc 0))"
    by (simp add: explode_def Let_def l numeral_2_eq_2)
  also have "\<dots> = [topLeft, ?rest]"
    by (simp add: d Let_def) (simp add: topLeft_def)
  finally show ?thesis .
qed

subsection \<open>The lines of a box\<close>

lemma longest_ge: "maxLength \<le> longest lines maxLength"
proof (induction lines arbitrary: maxLength)
  case Nil
  show ?case by simp
next
  case (Cons a lines)
  have "maxLength \<le> (if int (length a) > maxLength then int (length a) else maxLength)" by simp
  also have "\<dots> \<le> longest lines (if int (length a) > maxLength then int (length a) else maxLength)"
    by (rule Cons)
  finally show ?case by simp
qed

lemma longest_bound: "line \<in> set lines \<Longrightarrow> int (length line) \<le> longest lines maxLength"
proof (induction lines arbitrary: maxLength)
  case Nil
  then show ?case by simp
next
  case (Cons a lines)
  show ?case
  proof (cases "line = a")
    case True
    have "int (length a) \<le> (if int (length a) > maxLength then int (length a) else maxLength)" by simp
    also have "\<dots> \<le> longest lines (if int (length a) > maxLength then int (length a) else maxLength)"
      by (rule longest_ge)
    finally show ?thesis using True by simp
  next
    case False
    with Cons show ?thesis by simp
  qed
qed

lemma longest_Max: "longest lines maxLength = Max (insert maxLength ((\<lambda>x. int (length x)) ` set lines))"
proof (induction lines arbitrary: maxLength)
  case Nil
  show ?case by simp
next
  case (Cons a lines)
  have "Max (insert (max maxLength (int (length a))) ((\<lambda>x. int (length x)) ` set lines))
      = Max (insert maxLength (insert (int (length a)) ((\<lambda>x. int (length x)) ` set lines)))"
    by (cases "lines = []") (simp_all add: max.commute max.left_commute max.assoc)
  moreover have "(if int (length a) > maxLength then int (length a) else maxLength) = max maxLength (int (length a))"
    by simp
  ultimately show ?case using Cons [of "max maxLength (int (length a))"] by simp
qed

lemma Split_nl_ne: "Split_nl s \<noteq> []"
  by (induction s) (auto split: list.splits)

lemma message_lines_eq:
  assumes "0 \<le> padding l" and "\<forall>line \<in> set lines. int (length line) \<le> W"
  shows "message_lines l W cf lines result =
     Inr (result @ concat (map (\<lambda>line. cf (vertical @ replicate (nat (padding l)) CHR '' '' @ line
            @ replicate (nat (W - int (length line))) CHR '' '' @ vertical) @ [CHR 0x0A]) lines))"
  using assms(2)
  by (induction lines arbitrary: result) (simp_all add: paddedLine_def Repeat_space assms(1))

lemma boxWidth_lines:
  "line \<in> set (Split_nl message) \<Longrightarrow> int (length line) + padding l * 2 \<le> boxWidth l message tag"
  using longest_bound [of line "Split_nl message" 0]
  by (simp add: boxWidth_def Let_def)

lemma boxWidth_nonneg: "0 \<le> padding l \<Longrightarrow> 0 \<le> boxWidth l message tag"
  using longest_ge [of 0 "Split_nl message"]
  by (simp add: boxWidth_def Let_def)

lemma length_Format_clock: "length (Format_clock now) = 8"
  by (simp add: Format_clock_def two_digits_def)

lemma formatBox_eq:
  assumes p: "0 \<le> padding l"
  shows "formatBox l message tag cf tc now =
    (if showTimestamp l \<and> boxWidth l message tag < 8 then Inl NegativeRepeat
     else Inr (
       cf (if tag \<noteq> [] then topLeft @ '' '' @ tc tag @ '' ''
                  @ concat (replicate (nat (boxWidth l message tag)) horizontal) @ topRight
           else topLeft @ concat (replicate (nat (boxWidth l message tag)) horizontal) @ topRight)
       @ [CHR 0x0A]
       @ (if showTimestamp l then
            cf (vertical @ replicate (nat (padding l)) CHR '' '' @ Format_clock now
                @ replicate (nat (boxWidth l message tag - 8)) CHR '' '' @ vertical) @ [CHR 0x0A]
          else [])
       @ concat (map (\<lambda>line. cf (vertical @ replicate (nat (padding l)) CHR '' '' @ line
            @ replicate (nat (boxWidth l message tag - int (length line))) CHR '' '' @ vertical)
            @ [CHR 0x0A]) (Split_nl message))
       @ cf (bottomLeft @ concat (replicate (nat (boxWidth l message tag)) horizontal) @ bottomRight)))"
proof -
  define W where "W = boxWidth l message tag"
  have W: "0 \<le> W" unfolding W_def using p by (rule boxWidth_nonneg)
  have rule: "Repeat horizontal W = Inr (concat (replicate (nat W) horizontal))"
    using W by (simp add: Repeat_def)
  have lines: "\<forall>line \<in> set (Split_nl message). int (length line) \<le> W"
    unfolding W_def using boxWidth_lines [of _ message l tag] p by fastforce
  note ml = message_lines_eq [OF p lines]
  have ts: "paddedLine l W (Format_clock now) =
      (if W < 8 then Inl NegativeRepeat
       else Inr (vertical @ replicate (nat (padding l)) CHR '' '' @ Format_clock now
                @ replicate (nat (W - 8)) CHR '' '' @ vertical))"
    using p by (simp add: paddedLine_def Repeat_space length_Format_clock) (simp add: Repeat_def)
  have unf: "formatBox l message tag cf tc now =
     (case Repeat horizontal W of
        Inl e \<Rightarrow> Inl e
      | Inr rule \<Rightarrow>
          (let topBorder = topLeft @ rule @ topRight in
           case (if tag \<noteq> [] then
                   (let tagDisplay = '' '' @ tc tag @ '' '';
                        topBorderParts = explode topBorder 2
                    in if length topBorderParts < 2 then Inl IndexOutOfRange
                       else Inr (cf (topBorderParts ! 0 @ tagDisplay @ topBorderParts ! 1)
                                 @ [CHR 0x0A]))
                 else Inr (cf topBorder @ [CHR 0x0A])) of
             Inl e \<Rightarrow> Inl e
           | Inr result \<Rightarrow>
               (case (if showTimestamp l then
                        (let timestamp = Format_clock now in
                         case paddedLine l W timestamp of
                           Inl e \<Rightarrow> Inl e
                         | Inr p \<Rightarrow> Inr (result @ cf p @ [CHR 0x0A]))
                      else Inr result) of
                  Inl e \<Rightarrow> Inl e
                | Inr result \<Rightarrow>
                    (case message_lines l W cf (Split_nl message) result of
                       Inl e \<Rightarrow> Inl e
                     | Inr result \<Rightarrow>
                         Inr (result @ cf (bottomLeft @ rule @ bottomRight))))))"
    unfolding formatBox_def boxWidth_def W_def Let_def ..
  show ?thesis
    unfolding unf W_def [symmetric] by (simp add: rule explode_topBorder ts ml Let_def)
qed

lemma formatBox_negative_padding:
  assumes "padding l < 0"
  shows "\<exists>e. formatBox l message tag cf tc now = Inl e"
proof -
  have ml: "message_lines l W cf (Split_nl message) r = Inl NegativeRepeat" for W r
    using assms Split_nl_ne [of message]
    by (cases "Split_nl message") (simp_all add: paddedLine_def Repeat_def)
  show ?thesis
    by (auto simp: formatBox_def Let_def ml split: sum.splits if_splits)
qed

lemma formatBox_panics_iff:
  assumes "0 \<le> padding l"
  shows "(\<exists>e. formatBox l message tag cf tc now = Inl e)
     \<longleftrightarrow> showTimestamp l \<and> boxWidth l message tag < 8"
  by (simp add: formatBox_eq [OF assms])

lemma RuneCount_pos: "s \<noteq> [] \<Longrightarrow> 0 < RuneCountInString s"
  by (subst RuneCountInString.simps) simp

lemma RuneCount_ascii: "(of_char c :: nat) < 0x80 \<Longrightarrow> RuneCountInString (c # s) = Suc (RuneCountInString s)"
  by (subst RuneCountInString.simps) (simp add: DecodeRune_size_def first_info_def)

lemma RuneCount_box_char:
  assumes "b = topLeft \<or> b = bottomLeft \<or> b = vertical"
  shows "RuneCountInString (b @ s) = Suc (RuneCountInString s)"
proof -
  have "DecodeRune_size (b @ s) = 3"
    using assms
    by (auto simp: DecodeRune_size_def first_info_def topLeft_def bottomLeft_def vertical_def)
  moreover have "drop 3 (b @ s) = s" "b @ s \<noteq> []"
    using assms by (auto simp: topLeft_def bottomLeft_def vertical_def)
  ultimately show ?thesis
    by (subst RuneCountInString.simps) simp
qed

lemma RuneCount_border:
  "RuneCountInString (concat (replicate n horizontal) @ topRight) = n + 1"
  "RuneCountInString (concat (replicate n horizontal) @ bottomRight) = n + 1"
proof -
  have "RuneCountInString (concat (replicate n horizontal) @ topRight)
      = RuneCountInString (concat (replicate n horizontal)) + RuneCountInString topRight"
    by (rule RuneCount_append) (simp add: topRight_def)
  then show "RuneCountInString (concat (replicate n horizontal) @ topRight) = n + 1"
    by (simp add: RuneCount_rule RuneCount_box_chars)
  have "RuneCountInString (concat (replicate n horizontal) @ bottomRight)
      = RuneCountInString (concat (replicate n horizontal)) + RuneCountInString bottomRight"
    by (rule RuneCount_append) (simp add: bottomRight_def)
  then show "RuneCountInString (concat (replicate n horizontal) @ bottomRight) = n + 1"
    by (simp add: RuneCount_rule RuneCount_box_chars)
qed

lemma RuneCount_tagged:
  "RuneCountInString (topLeft @ '' '' @ tag @ '' '' @ concat (replicate n horizontal) @ topRight)
     = n + RuneCountInString tag + 4"
proof -
  have "RuneCountInString (tag @ '' '' @ concat (replicate n horizontal) @ topRight)
      = RuneCountInString tag + RuneCountInString ('' '' @ concat (replicate n horizontal) @ topRight)"
    by (rule RuneCount_append) simp
  then show ?thesis
    by (simp add: RuneCount_box_char RuneCount_ascii RuneCount_border)
qed

lemma boxWidth_Max:
  "boxWidth l message tag =
     (if tag \<noteq> [] then max (Max ((\<lambda>line. int (length line)) ` set (Split_nl message)))
                            (int (length tag) + 4)
      else Max ((\<lambda>line. int (length line)) ` set (Split_nl message))) + 2 * padding l"
proof -
  let ?S = "(\<lambda>line. int (length line)) ` set (Split_nl message)"
  have ne: "?S \<noteq> {}" "finite ?S" using Split_nl_ne [of message] by simp_all
  have "\<forall>x \<in> ?S. 0 \<le> x" by auto
  with ne have "0 \<le> Max ?S" by (meson Max_in)
  with ne have "Max (insert 0 ?S) = Max ?S" by (simp add: max_def)
  then show ?thesis
    by (simp add: boxWidth_def Let_def longest_Max max_def)
qed

lemma Split_nl_single: "CHR 0x0A \<notin> set message \<Longrightarrow> Split_nl message = [message]"
  by (induction message) auto

lemma single_line_box:
  assumes "CHR 0x0A \<notin> set message" and p: "0 \<le> padding l"
  shows "boxWidth l message [] = int (length message) + 2 * padding l"
    and "paddedLine l (boxWidth l message []) message
          = Inr (vertical @ replicate (nat (padding l)) CHR '' '' @ message
                 @ replicate (nat (2 * padding l)) CHR '' '' @ vertical)"
    and "int (RuneCountInString (vertical @ replicate (nat (padding l)) CHR '' '' @ message
                 @ replicate (nat (2 * padding l)) CHR '' '' @ vertical))
          = int (RuneCountInString message) + 3 * padding l + 2"
    and "int (RuneCountInString (topLeft
            @ concat (replicate (nat (boxWidth l message [])) horizontal) @ topRight))
          = int (length message) + 2 * padding l + 2"
proof -
  show w: "boxWidth l message [] = int (length message) + 2 * padding l"
    using assms(1) by (simp add: boxWidth_def Split_nl_single)
  show "paddedLine l (boxWidth l message []) message
          = Inr (vertical @ replicate (nat (padding l)) CHR '' '' @ message
                 @ replicate (nat (2 * padding l)) CHR '' '' @ vertical)"
    using p by (simp add: paddedLine_def w Repeat_space)
  have right: "RuneCountInString (replicate (nat (2 * padding l)) CHR '' '' @ vertical)
      = nat (2 * padding l) + 1"
    using RuneCount_append [of vertical "replicate (nat (2 * padding l)) CHR '' ''"]
    by (simp add: vertical_def RuneCount_spaces) (simp add: RuneCount_box_chars [unfolded vertical_def])
  have mid: "RuneCountInString (message @ replicate (nat (2 * padding l)) CHR '' '' @ vertical)
      = RuneCountInString message + (nat (2 * padding l) + 1)"
    unfolding right [symmetric]
    by (rule RuneCount_append) (cases "nat (2 * padding l)"; simp add: vertical_def)
  have left: "RuneCountInString (replicate n CHR '' '' @ s) = n + RuneCountInString s" for n s
    by (induction n) (simp_all add: RuneCount_ascii)
  show "int (RuneCountInString (vertical @ replicate (nat (padding l)) CHR '' '' @ message
                 @ replicate (nat (2 * padding l)) CHR '' '' @ vertical))
          = int (RuneCountInString message) + 3 * padding l + 2"
    using p by (simp add: RuneCount_box_char left mid)
  show "int (RuneCountInString (topLeft
            @ concat (replicate (nat (boxWidth l message [])) horizontal) @ topRight))
          = int (length message) + 2 * padding l + 2"
    using p by (simp add: RuneCount_box_char RuneCount_border w)
qed

subsection \<open>The logger\<close>

text \<open>
  C7. For every integer padding given to \<open>NewLogger\<close>, the padding stored in the Logger
  is \<open>max padding 1\<close>: a value of at least 1 is kept, a smaller one is raised to 1; the
  timestamp flag is stored as given.
\<close>

theorem NewLogger_padding_clamped:
  "padding (NewLogger st p) = max p 1 \<and> showTimestamp (NewLogger st p) = st"
  by (simp add: NewLogger_def Let_def max_def)

text \<open>
  C8. The default logger shows the timestamp and has padding 1, and each function of the
  package, for every message and every list of tags, writes what the method of the same
  name writes on the default logger: the box of the message, with the first tag if there
  is one, in the style of the level.
\<close>

theorem package_functions_use_DefaultLogger:
  "DefaultLogger = \<lparr>showTimestamp = True, padding = 1\<rparr>
   \<and> Warning st now message tag = Logger_Warning st now DefaultLogger message tag
   \<and> Message st now message tag = Logger_Message st now DefaultLogger message tag
   \<and> Info st now message tag = Logger_Info st now DefaultLogger message tag
   \<and> Error st now message tag = Logger_Error st now DefaultLogger message tag
   \<and> Success st now message tag = Logger_Success st now DefaultLogger message tag
   \<and> Ongoing st now message tag = Logger_Ongoing st now DefaultLogger message tag
   \<and> Warning st now message tag
       = Println (formatBox \<lparr>showTimestamp = True, padding = 1\<rparr> message
           (case tag of [] \<Rightarrow> [] | t # ts \<Rightarrow> t) (warningColor st) (tagColor st) now)
   \<and> Message st now message tag
       = Println (formatBox \<lparr>showTimestamp = True, padding = 1\<rparr> message
           (case tag of [] \<Rightarrow> [] | t # ts \<Rightarrow> t) (messageColor st) (tagColor st) now)
   \<and> Info st now message tag
       = Println (formatBox \<lparr>showTimestamp = True, padding = 1\<rparr> message
           (case tag of [] \<Rightarrow> [] | t # ts \<Rightarrow> t) (infoColor st) (tagColor st) now)
   \<and> Error st now message tag
       = Println (formatBox \<lparr>showTimestamp = True, padding = 1\<rparr> message
           (case tag of [] \<Rightarrow> [] | t # ts \<Rightarrow> t) (errorColor st) (tagColor st) now)
   \<and> Success st now message tag
       = Println (formatBox \<lparr>showTimestamp = True, padding = 1\<rparr> message
           (case tag of [] \<Rightarrow> [] | t # ts \<Rightarrow> t) (successColor st) (tagColor st) now)
   \<and> Ongoing st now message tag
       = Println (formatBox \<lparr>showTimestamp = True, padding = 1\<rparr> message
           (case tag of [] \<Rightarrow> [] | t # ts \<Rightarrow> t) (ongoingColor st) (tagColor st) now)"
proof -
  have d: "DefaultLogger = \<lparr>showTimestamp = True, padding = 1\<rparr>"
    by (simp add: DefaultLogger_def NewLogger_def)
  have t: "(if length tag > 0 then tag ! 0 else []) = (case tag of [] \<Rightarrow> [] | t # ts \<Rightarrow> t)"
    by (cases tag) simp_all
  show ?thesis
    unfolding Warning_def Message_def Info_def Error_def Success_def Ongoing_def
      Logger_Warning_def Logger_Message_def Logger_Info_def Logger_Error_def
      Logger_Success_def Logger_Ongoing_def Let_def t
    by (simp add: d)
qed

text \<open>
  Where \<open>formatBox\<close> does not panic, a non-empty tag gives this box: the width is the
  larger of the longest line and the length of the tag plus four, and the padding twice;
  the first line is the left corner, a space, the styled tag, a space, the whole rule of
  that width and the right corner; the last line is the bottom border without a tag.
  Without styles the first line has the width, the runes of the tag and four more
  characters, the last line the width and two.
\<close>

lemma tagged_box_layout:
  assumes "tag \<noteq> []" and p: "0 \<le> padding l"
    and r: "\<not> (showTimestamp l \<and> boxWidth l message tag < 8)"
  shows "boxWidth l message tag
           = max (Max ((\<lambda>line. int (length line)) ` set (Split_nl message)))
                 (int (length tag) + 4) + 2 * padding l"
    and "\<exists>body. formatBox l message tag cf tc now = Inr (
          cf (topLeft @ '' '' @ tc tag @ '' ''
              @ concat (replicate (nat (boxWidth l message tag)) horizontal) @ topRight)
          @ [CHR 0x0A] @ body
          @ cf (bottomLeft @ concat (replicate (nat (boxWidth l message tag)) horizontal)
                @ bottomRight))"
    and "int (RuneCountInString (topLeft @ '' '' @ tag @ '' ''
              @ concat (replicate (nat (boxWidth l message tag)) horizontal) @ topRight))
         = boxWidth l message tag + int (RuneCountInString tag) + 4"
    and "int (RuneCountInString (bottomLeft
              @ concat (replicate (nat (boxWidth l message tag)) horizontal) @ bottomRight))
         = boxWidth l message tag + 2"
proof -
  have W: "0 \<le> boxWidth l message tag" using p by (rule boxWidth_nonneg)
  show "boxWidth l message tag
           = max (Max ((\<lambda>line. int (length line)) ` set (Split_nl message)))
                 (int (length tag) + 4) + 2 * padding l"
    using assms(1) by (simp add: boxWidth_Max)
  show "\<exists>body. formatBox l message tag cf tc now = Inr (
          cf (topLeft @ '' '' @ tc tag @ '' ''
              @ concat (replicate (nat (boxWidth l message tag)) horizontal) @ topRight)
          @ [CHR 0x0A] @ body
          @ cf (bottomLeft @ concat (replicate (nat (boxWidth l message tag)) horizontal)
                @ bottomRight))"
    unfolding formatBox_eq [OF p] using assms(1) r by auto
  show "int (RuneCountInString (topLeft @ '' '' @ tag @ '' ''
              @ concat (replicate (nat (boxWidth l message tag)) horizontal) @ topRight))
         = boxWidth l message tag + int (RuneCountInString tag) + 4"
    unfolding RuneCount_tagged using W by simp
  show "int (RuneCountInString (bottomLeft
              @ concat (replicate (nat (boxWidth l message tag)) horizontal) @ bottomRight))
         = boxWidth l message tag + 2"
    using W by (simp add: RuneCount_box_char RuneCount_border)
qed

text \<open>
  C6. With the tag \<open>T\<close> the default logger, which shows the timestamp and has padding 1,
  gives the message \<open>hi\<close> the width \<open>max 2 (1 + 4) + 2 = 7\<close>. The timestamp has 8
  bytes, so \<open>formatBox\<close> asks \<open>strings.Repeat\<close> for -1 spaces and panics, whatever the
  styles and the clock, and so does the function \<open>Error\<close> of the package: no top border
  with the tag is written.
\<close>

theorem tagged_short_message_panics:
  "boxWidth DefaultLogger ''hi'' ''T'' = 7
   \<and> formatBox DefaultLogger ''hi'' ''T'' cf tc now = Inl NegativeRepeat
   \<and> Error st now ''hi'' [''T''] = Inl NegativeRepeat"
proof -
  have d: "DefaultLogger = \<lparr>showTimestamp = True, padding = 1\<rparr>"
    by (simp add: DefaultLogger_def NewLogger_def)
  have w: "boxWidth DefaultLogger ''hi'' ''T'' = 7"
    by (simp add: boxWidth_def d)
  have f: "formatBox DefaultLogger ''hi'' ''T'' cf tc now = Inl NegativeRepeat" for cf tc
    by (subst formatBox_eq) (simp_all add: w, simp_all add: d)
  from w f show ?thesis
    by (simp add: Error_def Logger_Error_def Println_def)
qed

text \<open>
  C2. The default logger shows the timestamp and has padding 1. For the message \<open>hi\<close>
  the width of the box is 4, the timestamp has 8 bytes, and \<open>formatBox\<close> asks
  \<open>strings.Repeat\<close> for -4 spaces: it panics, whatever the style and the clock, and so
  does the function \<open>Info\<close> of the package.
\<close>

theorem short_message_panics:
  "formatBox DefaultLogger ''hi'' [] cf tc now = Inl NegativeRepeat
   \<and> Info st now ''hi'' [] = Inl NegativeRepeat"
proof -
  have d: "DefaultLogger = \<lparr>showTimestamp = True, padding = 1\<rparr>"
    by (simp add: DefaultLogger_def NewLogger_def)
  have w: "boxWidth DefaultLogger ''hi'' [] = 4"
    by (simp add: boxWidth_def d)
  have "formatBox DefaultLogger ''hi'' [] cf tc now = Inl NegativeRepeat" for cf tc
    by (subst formatBox_eq) (simp_all add: w, simp_all add: d)
  then show ?thesis
    by (simp add: Info_def Logger_Info_def Println_def)
qed

text \<open>
  C1. For the message \<open>hello world\<close>, no tag, no timestamp, padding 1 and no styling,
  the borders have 15 characters, which is \<open>2 * padding + 11 + 2\<close>, and the
  message line has 16: the line is padded on the right up to the width that already
  holds the padding of both sides.
\<close>

theorem interior_line_wider_than_border:
  "formatBox (NewLogger False 1) ''hello world'' [] id id now
     = Inr (topLeft @ concat (replicate 13 horizontal) @ topRight @ [CHR 0x0A]
            @ vertical @ '' hello world  '' @ vertical @ [CHR 0x0A]
            @ bottomLeft @ concat (replicate 13 horizontal) @ bottomRight)
   \<and> RuneCountInString (topLeft @ concat (replicate 13 horizontal) @ topRight) = 15
   \<and> RuneCountInString (vertical @ '' hello world  '' @ vertical) = 16
   \<and> RuneCountInString (bottomLeft @ concat (replicate 13 horizontal) @ bottomRight) = 15
   \<and> 2 * padding (NewLogger False 1) + int (length ''hello world'') + 2 = 15"
proof -
  have n: "NewLogger False 1 = \<lparr>showTimestamp = False, padding = 1\<rparr>"
    by (simp add: NewLogger_def)
  have w: "boxWidth (NewLogger False 1) ''hello world'' [] = 13"
    by (simp add: boxWidth_def n)
  have 1: "formatBox (NewLogger False 1) ''hello world'' [] id id now
     = Inr (topLeft @ concat (replicate 13 horizontal) @ topRight @ [CHR 0x0A]
            @ vertical @ '' hello world  '' @ vertical @ [CHR 0x0A]
            @ bottomLeft @ concat (replicate 13 horizontal) @ bottomRight)"
    by (subst formatBox_eq) (simp_all add: w, simp_all add: n numeral_2_eq_2)
  have 2: "RuneCountInString (topLeft @ concat (replicate 13 horizontal) @ topRight) = 15"
    by code_simp
  have 3: "RuneCountInString (vertical @ '' hello world  '' @ vertical) = 16"
    by code_simp
  have 4: "RuneCountInString (bottomLeft @ concat (replicate 13 horizontal) @ bottomRight) = 15"
    by code_simp
  from 1 2 3 4 show ?thesis by (simp add: n)
qed

subsection \<open>The pretty strings\<close>

text \<open>
  C9. Each of \<open>MapAsPrettyString\<close>, \<open>ListAsPrettyString\<close> and
  \<open>ListAsPrettyStringWithIndex\<close>, given at least one leading fragment, returns the first
  fragment, one space and the structural rendering, in this order, whatever further
  fragments follow; given none, it returns the structural rendering alone: the
  entries between braces or brackets, separated by a comma and a space.
\<close>

theorem pretty_string_before_message:
  "MapAsPrettyString m (b # bs) = b @ '' '' @ MapAsPrettyString m []
   \<and> ListAsPrettyString xs (b # bs) = b @ '' '' @ ListAsPrettyString xs []
   \<and> ListAsPrettyStringWithIndex xs (b # bs) = b @ '' '' @ ListAsPrettyStringWithIndex xs []
   \<and> MapAsPrettyString m [] = ''{'' @ Join (map (\<lambda>(k, v). k @ '': '' @ ValueAsString v) m) '', '' @ ''}''
   \<and> ListAsPrettyString xs [] = ''['' @ Join (map (\<lambda>v. [CHR 0x22] @ v @ [CHR 0x22]) xs) '', '' @ '']''
   \<and> ListAsPrettyStringWithIndex xs [] =
        ''['' @ Join (map (\<lambda>(j, v). dec_nat (j + 1) @ '': '' @ [CHR 0x22] @ v @ [CHR 0x22]) (enumerate 0 xs)) '', '' @ '']''"
  by (simp add: MapAsPrettyString_def ListAsPrettyString_def ListAsPrettyStringWithIndex_def
        MapAsPrettyString_loop_Join ListAsPrettyString_loop_Join ListAsPrettyStringWithIndex_loop_Join)

text \<open>
  C10. \<open>ValueAsString\<close> of a string is a double quote, the string as it is and a double
  quote: nothing inside is escaped, the result is two bytes longer. \<open>ListAsPrettyString\<close>
  quotes its elements the same way. The result is ambiguous: a list of one element that
  holds a quote and a list of two elements have the same rendering, and so have two
  different maps.
\<close>

theorem strings_quoted_verbatim:
  "ValueAsString (VString s) = [CHR 0x22] @ s @ [CHR 0x22]
   \<and> length (ValueAsString (VString s)) = length s + 2
   \<and> ListAsPrettyString xs [] = ''['' @ Join (map (\<lambda>v. ValueAsString (VString v)) xs) '', '' @ '']''
   \<and> [''a'' @ [CHR 0x22] @ '', '' @ [CHR 0x22] @ ''b''] \<noteq> [''a'', ''b'']
   \<and> ListAsPrettyString [''a'' @ [CHR 0x22] @ '', '' @ [CHR 0x22] @ ''b''] []
       = ListAsPrettyString [''a'', ''b''] []
   \<and> VMap [(''k'', VString (''a'' @ [CHR 0x22] @ '', j: '' @ [CHR 0x22] @ ''b''))]
       \<noteq> VMap [(''k'', VString ''a''), (''j'', VString ''b'')]
   \<and> ValueAsString (VMap [(''k'', VString (''a'' @ [CHR 0x22] @ '', j: '' @ [CHR 0x22] @ ''b''))])
       = ValueAsString (VMap [(''k'', VString ''a''), (''j'', VString ''b'')])"
  by (simp add: ListAsPrettyString_def ListAsPrettyString_loop_Join)

subsection \<open>Maps\<close>

text \<open>
  C3. \<open>MapAsPrettyString\<close> writes the entries in the order in which \<open>range\<close> yields
  them. The map with the entries \<open>name: "John"\<close> and \<open>age: 30\<close> is rendered with
  \<open>name\<close> first when \<open>range\<close> yields \<open>name\<close> first, and with \<open>age\<close> first when it
  yields \<open>age\<close> first: two calls on the same map can return different strings.
\<close>

theorem MapAsPrettyString_range_order:
  "set [(''name'', VString ''John''), (''age'', VInt 30)]
     = set [(''age'', VInt 30), (''name'', VString ''John'')]
   \<and> MapAsPrettyString [(''name'', VString ''John''), (''age'', VInt 30)] []
     = ''{name: '' @ [CHR 0x22] @ ''John'' @ [CHR 0x22] @ '', age: 30}''
   \<and> MapAsPrettyString [(''age'', VInt 30), (''name'', VString ''John'')] []
     = ''{age: 30, name: '' @ [CHR 0x22] @ ''John'' @ [CHR 0x22] @ ''}''
   \<and> MapAsPrettyString [(''name'', VString ''John''), (''age'', VInt 30)] []
     \<noteq> MapAsPrettyString [(''age'', VInt 30), (''name'', VString ''John'')] []"
  by code_simp

subsection \<open>The tree rendering and the order of the keys\<close>

lemma map_of_filter_key: "map_of (filter (\<lambda>y. fst y = k) xs) k = map_of xs k"
  by (induction xs) auto

lemma map_of_sort_key: "map_of (sort_key fst xs) k = map_of xs k"
  using map_of_filter_key [of k "sort_key fst xs"] map_of_filter_key [of k xs]
  by (simp add: sort_key_stable)

lemma insort_key_map_fst:
  "insort_key fst (k, f v) (map (\<lambda>(k, v). (k, f v)) xs)
     = map (\<lambda>(k, v). (k, f v)) (insort_key fst (k, v) xs)"
  by (induction xs) auto

lemma sort_key_map_fst:
  "sort_key fst (map (\<lambda>(k, v). (k, f v)) xs) = map (\<lambda>(k, v). (k, f v)) (sort_key fst xs)"
  by (induction xs) (auto simp: insort_key_map_fst)

lemma map_fst_insort_key: "map fst (insort_key fst x xs) = insort (fst x) (map fst xs)"
  by (induction xs) auto

lemma map_fst_sort_key: "map fst (sort_key fst xs) = sort (map fst xs)"
  by (induction xs) (auto simp: map_fst_insort_key)

lemma fmt_v_canon: "fmt_v (canon v) = fmt_v v"
proof (induction v)
  case (VMap m)
  have "map (\<lambda>(k, v). k @ '':'' @ fmt_v v) (map (\<lambda>(k, v). (k, canon v)) (sort_key fst m))
      = map (\<lambda>(k, v). k @ '':'' @ fmt_v v) (sort_key fst m)"
    using VMap by (fastforce simp: snds.simps)
  then show ?case
    by (simp add: sort_key_map_fst sort_key_id_if_sorted del: map_map)
next
  case (VSlice xs)
  then have e: "map fmt_v (map canon xs) = map fmt_v xs" by (induction xs) auto
  show ?case by (simp only: canon.simps fmt_v.simps e)
qed simp_all


lemma PrintMapWithIndent_canon:
  "PrintMapWithIndent m indent
     = PrintMapWithIndent (sort_key fst (map (\<lambda>(k, v). (k, canon v)) m)) indent"
  "PrintMapWithIndent_items xs indent i = PrintMapWithIndent_items (map canon xs) indent i"
proof (induction m indent and xs indent i rule: PrintMapWithIndent_PrintMapWithIndent_items.induct)
  case (1 m indent)
  let ?cm = "sort_key fst (map (\<lambda>(k, v). (k, canon v)) m)"
  have "map fst (map (\<lambda>(k, v). (k, canon v)) m) = map fst m"
    by (induction m) auto
  then have keys: "sort (map fst ?cm) = sort (map fst m)"
    by (simp add: map_fst_sort_key sorted_sort_id del: map_map)
  have look: "map_of ?cm k = map_option canon (map_of m k)" for k
    by (simp add: map_of_sort_key map_of_map)
  let ?body = "\<lambda>(mm :: (string \<times> val) list) k. (case map_of mm k of
          None \<Rightarrow> indent @ k @ '': <nil>'' @ [CHR 0x0A]
        | Some v \<Rightarrow>
            (case v of
               VMap value \<Rightarrow>
                 indent @ k @ '': {'' @ [CHR 0x0A]
                   @ PrintMapWithIndent value (indent @ ''  '')
                   @ indent @ ''}'' @ [CHR 0x0A]
             | VSlice value \<Rightarrow>
                 indent @ k @ '': ['' @ [CHR 0x0A]
                   @ PrintMapWithIndent_items value indent 0
                   @ indent @ '']'' @ [CHR 0x0A]
             | _ \<Rightarrow> indent @ k @ '': '' @ fmt_v v @ [CHR 0x0A]))"
  have body: "?body m k = ?body ?cm k" if k: "k \<in> set (sort (map fst m))" for k
  proof (cases "map_of m k")
    case None
    then show ?thesis by (simp add: look)
  next
    case (Some v)
    show ?thesis
    proof (cases v)
      case (VMap a)
      from "1.IH"(1) [OF refl k Some VMap] Some VMap show ?thesis
        by (simp add: look)
    next
      case (VSlice ys)
      from "1.IH"(2) [OF refl k Some VSlice] Some VSlice show ?thesis
        by (simp add: look)
    qed (simp_all add: look Some)
  qed
  have eq: "map (?body m) (sort (map fst m)) = map (?body ?cm) (sort (map fst m))"
    by (rule map_cong [OF refl]) (rule body)
  have lhs: "PrintMapWithIndent m indent = concat (map (?body m) (sort (map fst m)))"
    by (subst PrintMapWithIndent.simps) (simp only: Let_def)
  have rhs: "PrintMapWithIndent ?cm indent = concat (map (?body ?cm) (sort (map fst ?cm)))"
    by (subst PrintMapWithIndent.simps) (simp only: Let_def)
  show ?case
    unfolding lhs rhs keys eq ..
next
  case (2 indent i)
  show ?case by simp
next
  case (3 item items indent i)
  show ?case
  proof (cases item)
    case (VMap a)
    with 3 show ?thesis by simp
  next
    case (VSlice ys)
    have "fmt_v (canon (VSlice ys)) = fmt_v (VSlice ys)" by (rule fmt_v_canon)
    with 3 VSlice show ?thesis by simp
  qed (use 3 in simp_all)
qed

lemma PrintMapWithIndent_same_map:
  "canon (VMap m) = canon (VMap m') \<Longrightarrow> PrintMapWithIndent m indent = PrintMapWithIndent m' indent"
  using PrintMapWithIndent_canon(1) [of m indent] PrintMapWithIndent_canon(1) [of m' indent]
  by simp


lemma canon_permutation:
  assumes d: "distinct (map fst m)" and d': "distinct (map fst m')" and eq: "set m' = set m"
  shows "canon (VMap m') = canon (VMap m)"
proof -
  let ?g = "\<lambda>(k, v). (k, canon v)"
  have fst: "map fst (map ?g xs) = map fst xs" for xs :: "(string \<times> val) list"
    by (induction xs) auto
  have "sort_key fst (map ?g m') = sort_key fst (map ?g m)"
  proof (rule map_sorted_distinct_set_unique [where f = fst])
    have "distinct (map fst (map ?g m))" using d by (simp only: fst)
    then show "inj_on fst (set (sort_key fst (map ?g m')) \<union> set (sort_key fst (map ?g m)))"
      using eq by (simp add: distinct_map del: map_map)
    show "distinct (map fst (sort_key fst (map ?g m')))"
      using d' by (simp only: map_fst_sort_key fst distinct_sort)
    show "distinct (map fst (sort_key fst (map ?g m)))"
      using d by (simp only: map_fst_sort_key fst distinct_sort)
    show "set (sort_key fst (map ?g m')) = set (sort_key fst (map ?g m))"
      using eq by simp
  qed simp_all
  then show ?thesis by simp
qed

lemma PrintMapWithIndent_items_enumerate:
  "PrintMapWithIndent_items xs indent i =
     concat (map (\<lambda>(j, item).
       case item of
         VMap nestedMap \<Rightarrow>
           indent @ ''  ['' @ dec_nat j @ '']: {'' @ [CHR 0x0A]
             @ PrintMapWithIndent nestedMap (indent @ ''    '')
             @ indent @ ''  }'' @ [CHR 0x0A]
       | _ \<Rightarrow> indent @ ''  ['' @ dec_nat j @ '']: '' @ fmt_v item @ [CHR 0x0A]) (enumerate i xs))"
  by (induction xs arbitrary: i) simp_all

lemma PrintMapWithIndent_single:
  "PrintMapWithIndent [(k, v)] indent =
     (case v of
        VMap sub \<Rightarrow>
          indent @ k @ '': {'' @ [CHR 0x0A] @ PrintMapWithIndent sub (indent @ ''  '')
            @ indent @ ''}'' @ [CHR 0x0A]
      | VSlice xs \<Rightarrow>
          indent @ k @ '': ['' @ [CHR 0x0A] @ PrintMapWithIndent_items xs indent 0
            @ indent @ '']'' @ [CHR 0x0A]
      | _ \<Rightarrow> indent @ k @ '': '' @ fmt_v v @ [CHR 0x0A])"
  by (subst PrintMapWithIndent.simps) simp

lemma PrintMapWithIndent_by_key:
  "PrintMapWithIndent m indent =
     concat (map (\<lambda>k. PrintMapWithIndent [(k, the (map_of m k))] indent) (sort (map fst m)))"
proof -
  have "map (\<lambda>k. case map_of m k of
          None \<Rightarrow> indent @ k @ '': <nil>'' @ [CHR 0x0A]
        | Some v \<Rightarrow>
            (case v of
               VMap value \<Rightarrow>
                 indent @ k @ '': {'' @ [CHR 0x0A]
                   @ PrintMapWithIndent value (indent @ ''  '')
                   @ indent @ ''}'' @ [CHR 0x0A]
             | VSlice value \<Rightarrow>
                 indent @ k @ '': ['' @ [CHR 0x0A]
                   @ PrintMapWithIndent_items value indent 0
                   @ indent @ '']'' @ [CHR 0x0A]
             | _ \<Rightarrow> indent @ k @ '': '' @ fmt_v v @ [CHR 0x0A])) (sort (map fst m))
     = map (\<lambda>k. PrintMapWithIndent [(k, the (map_of m k))] indent) (sort (map fst m))"
  proof (rule map_cong [OF refl])
    fix k assume "k \<in> set (sort (map fst m))"
    then have "k \<in> fst ` set m" by simp
    then obtain v where "map_of m k = Some v"
      by (cases "map_of m k") (auto simp: map_of_eq_None_iff)
    then show "(case map_of m k of
          None \<Rightarrow> indent @ k @ '': <nil>'' @ [CHR 0x0A]
        | Some v \<Rightarrow>
            (case v of
               VMap value \<Rightarrow>
                 indent @ k @ '': {'' @ [CHR 0x0A]
                   @ PrintMapWithIndent value (indent @ ''  '')
                   @ indent @ ''}'' @ [CHR 0x0A]
             | VSlice value \<Rightarrow>
                 indent @ k @ '': ['' @ [CHR 0x0A]
                   @ PrintMapWithIndent_items value indent 0
                   @ indent @ '']'' @ [CHR 0x0A]
             | _ \<Rightarrow> indent @ k @ '': '' @ fmt_v v @ [CHR 0x0A]))
        = PrintMapWithIndent [(k, the (map_of m k))] indent"
      by (simp add: PrintMapWithIndent_single)
  qed
  then show ?thesis
    by (subst PrintMapWithIndent.simps) (simp only: Let_def)
qed


text \<open>
  C5, as stated, fails for a slice that is not a \<open>[]interface{}\<close>: the \<open>[]int\<close> with
  the elements 95, 87 and 92 under the key \<open>scores\<close> is written on the line of its key
  as \<open>[95 87 92]\<close>, not as a bracketed block with indices, which is how the
  \<open>[]interface{}\<close> with the same elements is written.
\<close>

theorem typed_slice_inline_counterexample:
  "PrintMapWithIndent [(''scores'', VIntSlice [95, 87, 92])] [] = ''scores: [95 87 92]'' @ [CHR 0x0A]
   \<and> PrintMapWithIndent [(''scores'', VSlice [VInt 95, VInt 87, VInt 92])] []
       = ''scores: ['' @ [CHR 0x0A] @ ''  [0]: 95'' @ [CHR 0x0A] @ ''  [1]: 87'' @ [CHR 0x0A]
         @ ''  [2]: 92'' @ [CHR 0x0A] @ '']'' @ [CHR 0x0A]
   \<and> PrintMapWithIndent [(''scores'', VIntSlice [95, 87, 92])] []
       \<noteq> PrintMapWithIndent [(''scores'', VSlice [VInt 95, VInt 87, VInt 92])] []"
  by code_simp

text \<open>
  C5, amended. For a map with distinct keys, \<open>PrintMapWithIndent\<close> writes the entries in
  ascending order of the keys, in the byte-wise order of strings, each key once. The
  output does not depend on the order of iteration: it is the same for every value that
  differs only in the order of the entries of its maps at any depth, and such is every
  list of the same entries. An entry is written by its kind. A
  \<open>map[string]interface{}\<close> is written as its key and an opening brace, the entries of
  the nested map with the indentation extended by two spaces, and a closing brace. A
  \<open>[]interface{}\<close> is written as a bracketed block whose elements carry their indices
  from 0, two spaces in; a map that is an element is written in braces with its entries
  two more spaces in, any other element in its default text form. Every other value, a
  scalar or a slice of another type, is written on the line of its key in its default
  text form: a text as it is, a number in decimal, a boolean as \<open>true\<close> or \<open>false\<close>,
  a \<open>[]int\<close> as its elements between brackets.
\<close>

theorem PrintMapWithIndent_sorted_keys:
  assumes "distinct (map fst m)"
  shows "PrintMapWithIndent m indent
           = concat (map (\<lambda>k. PrintMapWithIndent [(k, the (map_of m k))] indent)
               (sorted_list_of_set (fst ` set m)))
    \<and> (\<forall>m'. canon (VMap m') = canon (VMap m)
           \<longrightarrow> PrintMapWithIndent m' indent = PrintMapWithIndent m indent)
    \<and> (\<forall>m'. distinct (map fst m') \<and> set m' = set m \<longrightarrow> canon (VMap m') = canon (VMap m))
    \<and> (\<forall>k v. PrintMapWithIndent [(k, v)] indent
           = (case v of
                VMap sub \<Rightarrow>
                  indent @ k @ '': {'' @ [CHR 0x0A] @ PrintMapWithIndent sub (indent @ ''  '')
                    @ indent @ ''}'' @ [CHR 0x0A]
              | VSlice xs \<Rightarrow>
                  indent @ k @ '': ['' @ [CHR 0x0A]
                    @ concat (map (\<lambda>(j, item).
                        case item of
                          VMap nestedMap \<Rightarrow>
                            indent @ ''  ['' @ dec_nat j @ '']: {'' @ [CHR 0x0A]
                              @ PrintMapWithIndent nestedMap (indent @ ''    '')
                              @ indent @ ''  }'' @ [CHR 0x0A]
                        | _ \<Rightarrow> indent @ ''  ['' @ dec_nat j @ '']: '' @ fmt_v item @ [CHR 0x0A])
                      (enumerate 0 xs))
                    @ indent @ '']'' @ [CHR 0x0A]
              | _ \<Rightarrow> indent @ k @ '': '' @ fmt_v v @ [CHR 0x0A]))
    \<and> (\<forall>s n t b ns u. fmt_v (VString s) = s \<and> fmt_v (VInt n) = dec_int n \<and> fmt_v (VFloat t) = t
           \<and> fmt_v (VBool b) = (if b then ''true'' else ''false'')
           \<and> fmt_v (VIntSlice ns) = ''['' @ Join (map dec_int ns) '' '' @ '']''
           \<and> fmt_v (VOther u) = u)"
proof -
  have keys: "sorted_list_of_set (fst ` set m) = sort (map fst m)"
    using sorted_list_of_set_sort_remdups [of "map fst m"] assms
    by (simp add: distinct_remdups_id)
  have 1: "PrintMapWithIndent m indent
           = concat (map (\<lambda>k. PrintMapWithIndent [(k, the (map_of m k))] indent)
               (sorted_list_of_set (fst ` set m)))"
    unfolding keys by (rule PrintMapWithIndent_by_key)
  have 2: "\<forall>m'. canon (VMap m') = canon (VMap m)
           \<longrightarrow> PrintMapWithIndent m' indent = PrintMapWithIndent m indent"
    by (blast intro: PrintMapWithIndent_same_map)
  have 3: "\<forall>m'. distinct (map fst m') \<and> set m' = set m \<longrightarrow> canon (VMap m') = canon (VMap m)"
    using assms by (blast intro: canon_permutation)
  have 4: "\<forall>k v. PrintMapWithIndent [(k, v)] indent
           = (case v of
                VMap sub \<Rightarrow>
                  indent @ k @ '': {'' @ [CHR 0x0A] @ PrintMapWithIndent sub (indent @ ''  '')
                    @ indent @ ''}'' @ [CHR 0x0A]
              | VSlice xs \<Rightarrow>
                  indent @ k @ '': ['' @ [CHR 0x0A]
                    @ concat (map (\<lambda>(j, item).
                        case item of
                          VMap nestedMap \<Rightarrow>
                            indent @ ''  ['' @ dec_nat j @ '']: {'' @ [CHR 0x0A]
                              @ PrintMapWithIndent nestedMap (indent @ ''    '')
                              @ indent @ ''  }'' @ [CHR 0x0A]
                        | _ \<Rightarrow> indent @ ''  ['' @ dec_nat j @ '']: '' @ fmt_v item @ [CHR 0x0A])
                      (enumerate 0 xs))
                    @ indent @ '']'' @ [CHR 0x0A]
              | _ \<Rightarrow> indent @ k @ '': '' @ fmt_v v @ [CHR 0x0A])"
    by (simp add: PrintMapWithIndent_single PrintMapWithIndent_items_enumerate split: val.split)
  have 5: "(\<forall>s n t b ns u. fmt_v (VString s) = s \<and> fmt_v (VInt n) = dec_int n \<and> fmt_v (VFloat t) = t
           \<and> fmt_v (VBool b) = (if b then ''true'' else ''false'')
           \<and> fmt_v (VIntSlice ns) = ''['' @ Join (map dec_int ns) '' '' @ '']''
           \<and> fmt_v (VOther u) = u)"
    by simp
  from 1 2 3 4 5 show ?thesis by (intro conjI)
qed

theorem PrintMapWithIndent_sorted_keys_witness:
  "distinct (map fst
     [(''user'', VMap [(''scores'', VSlice [VInt 95, VInt 87, VMap [(''b'', VBool True), (''a'', VFloat ''0.5'')]]), (''name'', VString ''John'')]),
      (''tags'', VIntSlice [1, 2]), (''note'', VOther ''<nil>''), (''id'', VInt 7)])
   \<and> canon (VMap
     [(''id'', VInt 7), (''note'', VOther ''<nil>''), (''tags'', VIntSlice [1, 2]),
      (''user'', VMap [(''name'', VString ''John''), (''scores'', VSlice [VInt 95, VInt 87, VMap [(''a'', VFloat ''0.5''), (''b'', VBool True)]])])])
     = canon (VMap
     [(''user'', VMap [(''scores'', VSlice [VInt 95, VInt 87, VMap [(''b'', VBool True), (''a'', VFloat ''0.5'')]]), (''name'', VString ''John'')]),
      (''tags'', VIntSlice [1, 2]), (''note'', VOther ''<nil>''), (''id'', VInt 7)])
   \<and> distinct (map fst
     [(''id'', VInt 7), (''tags'', VIntSlice [1, 2]), (''note'', VOther ''<nil>''),
      (''user'', VMap [(''scores'', VSlice [VInt 95, VInt 87, VMap [(''b'', VBool True), (''a'', VFloat ''0.5'')]]), (''name'', VString ''John'')])])
   \<and> set
     [(''id'', VInt 7), (''tags'', VIntSlice [1, 2]), (''note'', VOther ''<nil>''),
      (''user'', VMap [(''scores'', VSlice [VInt 95, VInt 87, VMap [(''b'', VBool True), (''a'', VFloat ''0.5'')]]), (''name'', VString ''John'')])]
     = set
     [(''user'', VMap [(''scores'', VSlice [VInt 95, VInt 87, VMap [(''b'', VBool True), (''a'', VFloat ''0.5'')]]), (''name'', VString ''John'')]),
      (''tags'', VIntSlice [1, 2]), (''note'', VOther ''<nil>''), (''id'', VInt 7)]
   \<and> canon (VMap
     [(''id'', VInt 7), (''tags'', VIntSlice [1, 2]), (''note'', VOther ''<nil>''),
      (''user'', VMap [(''scores'', VSlice [VInt 95, VInt 87, VMap [(''b'', VBool True), (''a'', VFloat ''0.5'')]]), (''name'', VString ''John'')])])
     = canon (VMap
     [(''user'', VMap [(''scores'', VSlice [VInt 95, VInt 87, VMap [(''b'', VBool True), (''a'', VFloat ''0.5'')]]), (''name'', VString ''John'')]),
      (''tags'', VIntSlice [1, 2]), (''note'', VOther ''<nil>''), (''id'', VInt 7)])
   \<and> PrintMapWithIndent
     [(''id'', VInt 7), (''note'', VOther ''<nil>''), (''tags'', VIntSlice [1, 2]),
      (''user'', VMap [(''name'', VString ''John''), (''scores'', VSlice [VInt 95, VInt 87, VMap [(''a'', VFloat ''0.5''), (''b'', VBool True)]])])] []
     = PrintMapWithIndent
     [(''user'', VMap [(''scores'', VSlice [VInt 95, VInt 87, VMap [(''b'', VBool True), (''a'', VFloat ''0.5'')]]), (''name'', VString ''John'')]),
      (''tags'', VIntSlice [1, 2]), (''note'', VOther ''<nil>''), (''id'', VInt 7)] []
   \<and> PrintMapWithIndent
     [(''user'', VMap [(''scores'', VSlice [VInt 95, VInt 87, VMap [(''b'', VBool True), (''a'', VFloat ''0.5'')]]), (''name'', VString ''John'')]),
      (''tags'', VIntSlice [1, 2]), (''note'', VOther ''<nil>''), (''id'', VInt 7)] []
     = ''id: 7'' @ [CHR 0x0A]
       @ ''note: <nil>'' @ [CHR 0x0A]
       @ ''tags: [1 2]'' @ [CHR 0x0A]
       @ ''user: {'' @ [CHR 0x0A]
       @ ''  name: John'' @ [CHR 0x0A]
       @ ''  scores: ['' @ [CHR 0x0A]
       @ ''    [0]: 95'' @ [CHR 0x0A]
       @ ''    [1]: 87'' @ [CHR 0x0A]
       @ ''    [2]: {'' @ [CHR 0x0A]
       @ ''      a: 0.5'' @ [CHR 0x0A]
       @ ''      b: true'' @ [CHR 0x0A]
       @ ''    }'' @ [CHR 0x0A]
       @ ''  ]'' @ [CHR 0x0A]
       @ ''}'' @ [CHR 0x0A]"
proof -
  let ?m = "[(''user'', VMap [(''scores'', VSlice [VInt 95, VInt 87, VMap [(''b'', VBool True), (''a'', VFloat ''0.5'')]]), (''name'', VString ''John'')]),
      (''tags'', VIntSlice [1, 2]), (''note'', VOther ''<nil>''), (''id'', VInt 7)]"
  let ?m' = "[(''id'', VInt 7), (''note'', VOther ''<nil>''), (''tags'', VIntSlice [1, 2]),
      (''user'', VMap [(''name'', VString ''John''), (''scores'', VSlice [VInt 95, VInt 87, VMap [(''a'', VFloat ''0.5''), (''b'', VBool True)]])])]"
  let ?m2 = "[(''id'', VInt 7), (''tags'', VIntSlice [1, 2]), (''note'', VOther ''<nil>''),
      (''user'', VMap [(''scores'', VSlice [VInt 95, VInt 87, VMap [(''b'', VBool True), (''a'', VFloat ''0.5'')]]), (''name'', VString ''John'')])]"
  have d: "distinct (map fst ?m)" by simp
  have d2: "distinct (map fst ?m2)" by simp
  have s2: "set ?m2 = set ?m" by auto
  from PrintMapWithIndent_sorted_keys [OF d, of "[]"] d2 s2
  have c2: "canon (VMap ?m2) = canon (VMap ?m)" by blast
  have c: "canon (VMap ?m') = canon (VMap ?m)" by code_simp
  from PrintMapWithIndent_sorted_keys [OF d, of "[]"] c
  have e: "PrintMapWithIndent ?m' [] = PrintMapWithIndent ?m []" by blast
  have v: "PrintMapWithIndent ?m []
     = ''id: 7'' @ [CHR 0x0A]
       @ ''note: <nil>'' @ [CHR 0x0A]
       @ ''tags: [1 2]'' @ [CHR 0x0A]
       @ ''user: {'' @ [CHR 0x0A]
       @ ''  name: John'' @ [CHR 0x0A]
       @ ''  scores: ['' @ [CHR 0x0A]
       @ ''    [0]: 95'' @ [CHR 0x0A]
       @ ''    [1]: 87'' @ [CHR 0x0A]
       @ ''    [2]: {'' @ [CHR 0x0A]
       @ ''      a: 0.5'' @ [CHR 0x0A]
       @ ''      b: true'' @ [CHR 0x0A]
       @ ''    }'' @ [CHR 0x0A]
       @ ''  ]'' @ [CHR 0x0A]
       @ ''}'' @ [CHR 0x0A]"
    by code_simp
  from d c d2 s2 c2 e v show ?thesis by (intro conjI)
qed

subsection \<open>Scalars\<close>



end
